theory Spec2Isabelle
  imports Main "HOL-Library.Code_Target_Numeral"
begin

section \<open>Data model\<close>

text \<open>
  The classes \<open>Goal\<close>, \<open>SubTask\<close> and \<open>Schedule\<close> are imported by every module from
  \<open>models\<close>. They are records here, with the fields the modules read and write.
  Python's \<open>str\<close> is a \<open>string\<close>: a character stands for a code point below 256, so the
  classification of characters below is the one Python applies to that range. Python's
  \<open>int\<close> is \<open>int\<close>. A \<open>datetime\<close> is a \<open>timestamp\<close>, the number of microseconds since
  1970-01-01T00:00 (the resolution of \<open>datetime\<close>); an absent optional field is \<open>None\<close>.
\<close>

type_synonym timestamp = int

record goal =
  title :: string
  description :: string

record subtask =
  task_id :: string
  goal_title :: string
  description :: string
  order :: int
  estimate_minutes :: "int option"
  scheduled_start :: "timestamp option"
  scheduled_end :: "timestamp option"

record schedule =
  goal_of :: goal
  subtasks :: "subtask list"

datatype error =
    FileNotFoundError string
  | JSONDecodeError
  | KeyError string
  | TypeError
  | ValidationError
  | RuntimeError string

section \<open>Strings\<close>

definition LF :: char where
  "LF = CHR 0x0A"

definition CR :: char where
  "CR = CHR 0x0D"

text \<open>\<open>str.isspace\<close> on one character.\<close>

definition is_space :: "char \<Rightarrow> bool" where
  "is_space c =
     (let n = (of_char c :: nat)
      in (9 \<le> n \<and> n \<le> 13) \<or> (28 \<le> n \<and> n \<le> 32) \<or> n = 133 \<or> n = 160)"

text \<open>The line boundaries of \<open>str.splitlines\<close>.\<close>

definition is_linebreak :: "char \<Rightarrow> bool" where
  "is_linebreak c =
     (let n = (of_char c :: nat)
      in (10 \<le> n \<and> n \<le> 13) \<or> (28 \<le> n \<and> n \<le> 30) \<or> n = 133)"

text \<open>The class \<open>\d\<close> of \<open>re\<close>.\<close>

definition is_digit :: "char \<Rightarrow> bool" where
  "is_digit c = (let n = (of_char c :: nat) in 48 \<le> n \<and> n \<le> 57)"

text \<open>
  \<open>str.strip\<close>: with an argument it removes the characters of the argument from both
  ends, without one it removes white space.
\<close>

definition strip_by :: "(char \<Rightarrow> bool) \<Rightarrow> string \<Rightarrow> string" where
  "strip_by P s = rev (dropWhile P (rev (dropWhile P s)))"

definition strip_chars :: "string \<Rightarrow> string \<Rightarrow> string" where
  "strip_chars cs s = strip_by (\<lambda>c. c \<in> set cs) s"

definition strip :: "string \<Rightarrow> string" where
  "strip s = strip_by is_space s"

text \<open>
  \<open>str.splitlines\<close>: the text is cut at every line boundary, a carriage return followed
  by a line feed counts as one boundary, and a boundary at the very end opens no further
  line. The first argument is the line read so far.
\<close>

fun splitlines_from :: "string \<Rightarrow> string \<Rightarrow> string list" where
  "splitlines_from cur [] = (if cur = [] then [] else [cur])"
| "splitlines_from cur (c # cs) =
     (if c = CR \<and> cs \<noteq> [] \<and> hd cs = LF then cur # splitlines_from [] (tl cs)
      else if is_linebreak c then cur # splitlines_from [] cs
      else splitlines_from (cur @ [c]) cs)"

definition splitlines :: "string \<Rightarrow> string list" where
  "splitlines text = splitlines_from [] text"

text \<open>\<open>"\n".join\<close>.\<close>

fun join_lines :: "string list \<Rightarrow> string" where
  "join_lines [] = []"
| "join_lines [l] = l"
| "join_lines (l # m # ls) = l @ LF # join_lines (m # ls)"

text \<open>\<open>str\<close> of an integer: its decimal digits, after a minus sign when it is negative.\<close>

definition digit_char :: "nat \<Rightarrow> char" where
  "digit_char d = char_of (48 + d)"

function str_nat :: "nat \<Rightarrow> string" where
  "str_nat n = (if n < 10 then [digit_char n] else str_nat (n div 10) @ [digit_char (n mod 10)])"
  by pat_completeness auto
termination
  by (relation "measure id") auto

declare str_nat.simps [simp del]

definition str_int :: "int \<Rightarrow> string" where
  "str_int i = (if i < 0 then CHR ''-'' # str_nat (nat (- i)) else str_nat (nat i))"

section \<open>The parser of \<open>agents\<close>\<close>

text \<open>
  Modelled from the spec: \<open>models.py\<close> is not among the sources, so the checks that the
  constructor \<open>SubTask(...)\<close> makes are the field constraints of the data model: the
  description is not empty, the order is positive, an estimate is positive, and a start
  comes with a later end. A violated constraint is a \<open>ValidationError\<close>.
\<close>

definition subtask_valid :: "subtask \<Rightarrow> bool" where
  "subtask_valid t =
     (subtask.description t \<noteq> [] \<and> 0 < order t \<and>
      (case estimate_minutes t of None \<Rightarrow> True | Some m \<Rightarrow> 0 < m) \<and>
      (case scheduled_start t of
         None \<Rightarrow> True
       | Some a \<Rightarrow> (case scheduled_end t of None \<Rightarrow> False | Some b \<Rightarrow> a < b)))"

definition SubTask :: "string \<Rightarrow> string \<Rightarrow> string \<Rightarrow> int \<Rightarrow> error + subtask" where
  "SubTask i g d n =
     (let t = \<lparr>task_id = i, goal_title = g, description = d, order = n,
                estimate_minutes = None, scheduled_start = None, scheduled_end = None\<rparr>
      in if subtask_valid t then Inr t else Inl ValidationError)"

text \<open>\<open>re.compile(r"^\d+\.").match\<close>: digits, at least one, then a full stop.\<close>

definition numbered_item :: "string \<Rightarrow> bool" where
  "numbered_item line =
     (takeWhile is_digit line \<noteq> [] \<and>
      (case dropWhile is_digit line of [] \<Rightarrow> False | c # _ \<Rightarrow> c = CHR ''.''))"

text \<open>The list comprehension that opens \<open>_subtasks_from_llm_output\<close>.\<close>

definition cleaned_lines :: "string \<Rightarrow> string list" where
  "cleaned_lines text =
     map (\<lambda>ln. strip (strip_chars ''- '' ln)) (filter (\<lambda>ln. strip ln \<noteq> []) (splitlines text))"

text \<open>
  The loop over \<open>enumerate(lines, start=1)\<close>: \<open>idx\<close> is the counter of the enumeration,
  the last argument is the list \<open>subtasks\<close> built so far.
\<close>

fun subtasks_loop :: "goal \<Rightarrow> int \<Rightarrow> string list \<Rightarrow> subtask list \<Rightarrow> error + subtask list" where
  "subtasks_loop g idx [] acc = Inr acc"
| "subtasks_loop g idx (line # lines) acc =
     (if \<not> numbered_item line then subtasks_loop g (idx + 1) lines acc
      else case SubTask (''task-'' @ str_int idx) (title g) line idx of
             Inl e \<Rightarrow> Inl e
           | Inr t \<Rightarrow> subtasks_loop g (idx + 1) lines (acc @ [t]))"

definition subtasks_from_llm_output :: "string \<Rightarrow> goal \<Rightarrow> error + subtask list" where
  "subtasks_from_llm_output text g = subtasks_loop g 1 (cleaned_lines text) []"

text \<open>
  What the loop computes, as a function of the counter and the lines alone: the record it
  builds for one line, and the records of the numbered lines from counter \<open>idx\<close> on.
\<close>

definition new_subtask :: "goal \<Rightarrow> int \<Rightarrow> string \<Rightarrow> subtask" where
  "new_subtask g idx line =
     \<lparr>task_id = ''task-'' @ str_int idx, goal_title = title g, description = line, order = idx,
      estimate_minutes = None, scheduled_start = None, scheduled_end = None\<rparr>"

fun retained :: "goal \<Rightarrow> int \<Rightarrow> string list \<Rightarrow> subtask list" where
  "retained g idx [] = []"
| "retained g idx (line # lines) =
     (if numbered_item line then new_subtask g idx line # retained g (idx + 1) lines
      else retained g (idx + 1) lines)"

text \<open>Reading a decimal numeral back, the inverse of \<open>str_nat\<close>.\<close>

definition digit_val :: "char \<Rightarrow> nat" where
  "digit_val c = of_char c - 48"

definition nat_of_digits :: "string \<Rightarrow> nat" where
  "nat_of_digits s = foldl (\<lambda>a c. 10 * a + digit_val c) 0 s"

section \<open>The pipeline of \<open>agents\<close>\<close>

text \<open>
  Modelled from the spec: \<open>models.py\<close> is not among the sources, so the check that the
  constructor \<open>Schedule(...)\<close> makes is the constraint of the data model: within a
  schedule no two subtasks share an id or an order.
\<close>

definition schedule_valid :: "schedule \<Rightarrow> bool" where
  "schedule_valid s = (distinct (map task_id (subtasks s)) \<and> distinct (map order (subtasks s)))"

definition Schedule :: "goal \<Rightarrow> subtask list \<Rightarrow> error + schedule" where
  "Schedule g ts =
     (let s = \<lparr>goal_of = g, subtasks = ts\<rparr>
      in if schedule_valid s then Inr s else Inl ValidationError)"

definition schedule_from_executor_output :: "string \<Rightarrow> goal \<Rightarrow> subtask list \<Rightarrow> error + schedule" where
  "schedule_from_executor_output text g original_subtasks = Schedule g original_subtasks"

text \<open>
  \<open>plan_and_execute\<close>. The crew is the generation collaborator: \<open>kickoff\<close> stands for
  \<open>build_crew().kickoff(inputs=...)\<close> followed by \<open>str\<close>, given the title and the
  description of the goal; it returns the text or the exception it raised. The function has
  no handler, so an exception of the collaborator leaves it as it came.
\<close>

definition plan_and_execute :: "(string \<Rightarrow> string \<Rightarrow> error + string) \<Rightarrow> goal \<Rightarrow> error + schedule" where
  "plan_and_execute kickoff g =
     (case kickoff (title g) (goal.description g) of
        Inl e \<Rightarrow> Inl e
      | Inr planner_text \<Rightarrow>
          (case subtasks_from_llm_output planner_text g of
             Inl e \<Rightarrow> Inl e
           | Inr parsed \<Rightarrow> schedule_from_executor_output planner_text g parsed))"

section \<open>The schedule builder\<close>

text \<open>
  Modelled from the spec: \<open>with_time_blocks\<close> is a method of \<open>Schedule\<close> in \<open>models.py\<close>,
  which is not among the sources; \<open>main\<close> only calls it. The subtasks are taken in
  ascending order; a cursor starts at the start time; each subtask starts at the cursor,
  lasts its estimate if it has one and 30 minutes otherwise, and moves the cursor to its
  end. The other fields are kept.
\<close>

definition default_duration :: int where
  "default_duration = 30"

definition minutes :: "int \<Rightarrow> int" where
  "minutes m = m * 60000000"

definition duration_of :: "subtask \<Rightarrow> int" where
  "duration_of t = (case estimate_minutes t of Some m \<Rightarrow> m | None \<Rightarrow> default_duration)"

fun assign_blocks :: "timestamp \<Rightarrow> subtask list \<Rightarrow> subtask list" where
  "assign_blocks cursor [] = []"
| "assign_blocks cursor (t # ts) =
     (let start = cursor; finish = start + minutes (duration_of t)
      in t\<lparr>scheduled_start := Some start, scheduled_end := Some finish\<rparr> # assign_blocks finish ts)"

definition with_time_blocks :: "timestamp \<Rightarrow> schedule \<Rightarrow> schedule" where
  "with_time_blocks start s = s\<lparr>subtasks := assign_blocks start (sort_key order (subtasks s))\<rparr>"

text \<open>A subtask without its times, to compare the other fields.\<close>

definition untimed :: "subtask \<Rightarrow> subtask" where
  "untimed t = t\<lparr>scheduled_start := None, scheduled_end := None\<rparr>"

text \<open>The time \<open>h:m\<close> of 2024-01-01, which is 19723 days after 1970-01-01.\<close>

definition on_2024_01_01 :: "int \<Rightarrow> int \<Rightarrow> timestamp" where
  "on_2024_01_01 h m = (19723 * 86400 + h * 3600 + m * 60) * 1000000"

section \<open>Persistence: \<open>async_io\<close>\<close>

text \<open>
  The values that \<open>json.dumps\<close> takes and \<open>json.loads\<close> returns; an object is the list of
  its items in order, read by key. The functions of the Python library are parameters:
  the JSON printer and parser, and the ISO 8601 text of a \<open>datetime\<close> with its parser,
  as \<open>datetime.isoformat\<close> and pydantic use them.
\<close>

datatype json = JNull | JInt int | JStr string | JArr "json list" | JObj "(string \<times> json) list"

record pylib =
  json_dumps :: "json \<Rightarrow> string"
  json_loads :: "string \<Rightarrow> error + json"
  isoformat :: "timestamp \<Rightarrow> string"
  parse_datetime :: "string \<Rightarrow> error + timestamp"

definition and_then :: "error + 'a \<Rightarrow> ('a \<Rightarrow> error + 'b) \<Rightarrow> error + 'b" where
  "and_then r f = (case r of Inl e \<Rightarrow> Inl e | Inr x \<Rightarrow> f x)"

fun traverse :: "('a \<Rightarrow> error + 'b) \<Rightarrow> 'a list \<Rightarrow> error + 'b list" where
  "traverse f [] = Inr []"
| "traverse f (x # xs) = and_then (f x) (\<lambda>y. and_then (traverse f xs) (\<lambda>ys. Inr (y # ys)))"

text \<open>
  Modelled from the spec: \<open>model_dump(mode="json")\<close> and \<open>model_validate\<close> belong to the
  classes of \<open>models.py\<close>, which is not among the sources. The record format is the one of
  the external interfaces: a goal with title and description, and the subtasks in order,
  each with id, goal title, description, order and the three optional fields, an absent
  one written as \<open>null\<close> and a timestamp as its ISO 8601 text. Validation reads the fields
  by key, takes a missing or \<open>null\<close> optional field as absent, and applies the constraints
  of the data model.
\<close>

definition dump_opt_int :: "int option \<Rightarrow> json" where
  "dump_opt_int v = (case v of None \<Rightarrow> JNull | Some m \<Rightarrow> JInt m)"

definition dump_opt_datetime :: "pylib \<Rightarrow> timestamp option \<Rightarrow> json" where
  "dump_opt_datetime lib v = (case v of None \<Rightarrow> JNull | Some a \<Rightarrow> JStr (isoformat lib a))"

definition dump_goal :: "goal \<Rightarrow> json" where
  "dump_goal g = JObj [(''title'', JStr (title g)), (''description'', JStr (goal.description g))]"

definition dump_subtask :: "pylib \<Rightarrow> subtask \<Rightarrow> json" where
  "dump_subtask lib t =
     JObj [(''id'', JStr (task_id t)),
           (''goal_title'', JStr (goal_title t)),
           (''description'', JStr (subtask.description t)),
           (''order'', JInt (order t)),
           (''estimate_minutes'', dump_opt_int (estimate_minutes t)),
           (''scheduled_start'', dump_opt_datetime lib (scheduled_start t)),
           (''scheduled_end'', dump_opt_datetime lib (scheduled_end t))]"

definition model_dump :: "pylib \<Rightarrow> schedule \<Rightarrow> json" where
  "model_dump lib s =
     JObj [(''goal'', dump_goal (goal_of s)),
           (''subtasks'', JArr (map (dump_subtask lib) (subtasks s)))]"

definition req_str :: "(string \<times> json) list \<Rightarrow> string \<Rightarrow> error + string" where
  "req_str kvs k = (case map_of kvs k of Some (JStr v) \<Rightarrow> Inr v | _ \<Rightarrow> Inl ValidationError)"

definition req_int :: "(string \<times> json) list \<Rightarrow> string \<Rightarrow> error + int" where
  "req_int kvs k = (case map_of kvs k of Some (JInt v) \<Rightarrow> Inr v | _ \<Rightarrow> Inl ValidationError)"

definition opt_int :: "(string \<times> json) list \<Rightarrow> string \<Rightarrow> error + int option" where
  "opt_int kvs k =
     (case map_of kvs k of
        None \<Rightarrow> Inr None
      | Some JNull \<Rightarrow> Inr None
      | Some (JInt v) \<Rightarrow> Inr (Some v)
      | _ \<Rightarrow> Inl ValidationError)"

definition opt_datetime :: "pylib \<Rightarrow> (string \<times> json) list \<Rightarrow> string \<Rightarrow> error + timestamp option" where
  "opt_datetime lib kvs k =
     (case map_of kvs k of
        None \<Rightarrow> Inr None
      | Some JNull \<Rightarrow> Inr None
      | Some (JStr v) \<Rightarrow> and_then (parse_datetime lib v) (\<lambda>a. Inr (Some a))
      | _ \<Rightarrow> Inl ValidationError)"

definition goal_valid :: "goal \<Rightarrow> bool" where
  "goal_valid g = (title g \<noteq> [])"

definition validate_goal :: "json \<Rightarrow> error + goal" where
  "validate_goal j =
     (case j of
        JObj kvs \<Rightarrow>
          and_then (req_str kvs ''title'') (\<lambda>t.
          and_then (req_str kvs ''description'') (\<lambda>d.
            let g = \<lparr>title = t, description = d\<rparr>
            in if goal_valid g then Inr g else Inl ValidationError))
      | _ \<Rightarrow> Inl ValidationError)"

definition validate_subtask :: "pylib \<Rightarrow> json \<Rightarrow> error + subtask" where
  "validate_subtask lib j =
     (case j of
        JObj kvs \<Rightarrow>
          and_then (req_str kvs ''id'') (\<lambda>i.
          and_then (req_str kvs ''goal_title'') (\<lambda>g.
          and_then (req_str kvs ''description'') (\<lambda>d.
          and_then (req_int kvs ''order'') (\<lambda>n.
          and_then (opt_int kvs ''estimate_minutes'') (\<lambda>m.
          and_then (opt_datetime lib kvs ''scheduled_start'') (\<lambda>a.
          and_then (opt_datetime lib kvs ''scheduled_end'') (\<lambda>b.
            let t = \<lparr>task_id = i, goal_title = g, description = d, order = n,
                       estimate_minutes = m, scheduled_start = a, scheduled_end = b\<rparr>
            in if subtask_valid t then Inr t else Inl ValidationError)))))))
      | _ \<Rightarrow> Inl ValidationError)"

definition model_validate :: "pylib \<Rightarrow> json \<Rightarrow> error + schedule" where
  "model_validate lib j =
     (case j of
        JObj kvs \<Rightarrow>
          (case map_of kvs ''goal'' of
             None \<Rightarrow> Inl ValidationError
           | Some gj \<Rightarrow>
               and_then (validate_goal gj) (\<lambda>g.
                 case map_of kvs ''subtasks'' of
                   Some (JArr js) \<Rightarrow> and_then (traverse (validate_subtask lib) js) (Schedule g)
                 | _ \<Rightarrow> Inl ValidationError))
      | _ \<Rightarrow> Inl ValidationError)"

text \<open>
  The files: a path has a content or does not exist. Opening a path with mode \<open>"w"\<close>
  creates the file or empties it; a write appends to what was written since.
\<close>

type_synonym files = "string \<rightharpoonup> string"

datatype effect = Open_w string | Write string string

fun apply_effect :: "files \<Rightarrow> effect \<Rightarrow> files" where
  "apply_effect fs (Open_w path) = fs(path \<mapsto> [])"
| "apply_effect fs (Write path text) =
     fs(path \<mapsto> (case fs path of None \<Rightarrow> text | Some written \<Rightarrow> written @ text))"

text \<open>
  Opening a path for writing raises where the operating system refuses it: a directory
  that is missing, a permission that is not given. The refusals are the paths that cannot
  be opened for writing, each with the exception that the open raises. An operation that
  raises changes no file; an operation that is done changes the files as \<open>apply_effect\<close>
  says. A sequence of operations stops at the first one that raises.
\<close>

type_synonym refusals = "string \<rightharpoonup> error"

fun perform :: "refusals \<Rightarrow> files \<Rightarrow> effect \<Rightarrow> error + files" where
  "perform refused fs (Open_w path) =
     (case refused path of
        Some e \<Rightarrow> Inl e
      | None \<Rightarrow> Inr (apply_effect fs (Open_w path)))"
| "perform refused fs (Write path text) = Inr (apply_effect fs (Write path text))"

fun run_effects :: "refusals \<Rightarrow> files \<Rightarrow> effect list \<Rightarrow> (error + unit) \<times> files" where
  "run_effects refused fs [] = (Inr (), fs)"
| "run_effects refused fs (eff # effs) =
     (case perform refused fs eff of
        Inl e \<Rightarrow> (Inl e, fs)
      | Inr fs' \<Rightarrow> run_effects refused fs' effs)"

text \<open>
  \<open>save_schedule\<close>: the payload, its text, and the two awaited operations on the file.
  \<open>now\<close> is the value of \<open>datetime.now()\<close>. The result is what the call returns or raises,
  with the files it leaves. A save that is cancelled has completed only the first \<open>k\<close> of
  its operations.
\<close>

definition save_payload :: "pylib \<Rightarrow> timestamp \<Rightarrow> schedule \<Rightarrow> json" where
  "save_payload lib now s =
     JObj [(''saved_at'', JStr (isoformat lib now)), (''schedule'', model_dump lib s)]"

definition save_effects :: "pylib \<Rightarrow> timestamp \<Rightarrow> string \<Rightarrow> schedule \<Rightarrow> effect list" where
  "save_effects lib now path s =
     (let json_str = json_dumps lib (save_payload lib now s)
      in [Open_w path, Write path json_str])"

definition save_schedule ::
  "pylib \<Rightarrow> timestamp \<Rightarrow> refusals \<Rightarrow> files \<Rightarrow> string \<Rightarrow> schedule \<Rightarrow> (error + unit) \<times> files" where
  "save_schedule lib now refused fs path s =
     run_effects refused fs (save_effects lib now path s)"

definition save_schedule_cancelled ::
  "nat \<Rightarrow> pylib \<Rightarrow> timestamp \<Rightarrow> files \<Rightarrow> string \<Rightarrow> schedule \<Rightarrow> files" where
  "save_schedule_cancelled k lib now fs path s =
     foldl apply_effect fs (take k (save_effects lib now path s))"

text \<open>\<open>load_schedule\<close>. Subscripting a value that is not an object is a \<open>TypeError\<close>.\<close>

definition load_schedule :: "pylib \<Rightarrow> files \<Rightarrow> string \<Rightarrow> error + schedule" where
  "load_schedule lib fs path =
     (case fs path of
        None \<Rightarrow> Inl (FileNotFoundError path)
      | Some content \<Rightarrow>
          (case json_loads lib content of
             Inl e \<Rightarrow> Inl e
           | Inr raw \<Rightarrow>
               (case raw of
                  JObj kvs \<Rightarrow>
                    (case map_of kvs ''schedule'' of
                       None \<Rightarrow> Inl (KeyError ''schedule'')
                     | Some schedule_data \<Rightarrow> model_validate lib schedule_data)
                | _ \<Rightarrow> Inl TypeError)))"

section \<open>Notification: \<open>mock_async_calendar_block\<close>\<close>

text \<open>
  The loop over the subtasks. \<open>block\<close> stands for the body, the wait and the call that
  reserves the time of one subtask, which returns or raises. The loop has no handler, so the
  first exception ends it. The last argument lists the subtasks the body was run for.
\<close>

fun calendar_loop ::
  "(subtask \<Rightarrow> error + unit) \<Rightarrow> subtask list \<Rightarrow> subtask list \<Rightarrow> (error + unit) \<times> subtask list" where
  "calendar_loop block [] attempted = (Inr (), attempted)"
| "calendar_loop block (task # tasks) attempted =
     (case block task of
        Inl e \<Rightarrow> (Inl e, attempted @ [task])
      | Inr _ \<Rightarrow> calendar_loop block tasks (attempted @ [task]))"

definition mock_async_calendar_block ::
  "(subtask \<Rightarrow> error + unit) \<Rightarrow> schedule \<Rightarrow> (error + unit) \<times> subtask list" where
  "mock_async_calendar_block block s = calendar_loop block (subtasks s) []"

section \<open>The gather of \<open>async_main\<close>\<close>

text \<open>
  \<open>asyncio.gather\<close> runs its coroutines interleaved: the event loop resumes one of them
  at a time, the save for one operation on the file or the notification loop for one
  subtask. The schedule lists whose turn it is; when it has run out, or one coroutine is
  done, the other runs on. The first exception that a coroutine raises is raised by the
  gather at once, \<open>async_main\<close> has no handler for it, and the run ends there: the other
  coroutine is cancelled where it stands. The result is what the gather returns or raises,
  the files it leaves, and the subtasks the loop body was run for.
\<close>

datatype turn = Save_turn | Block_turn

fun gather ::
  "turn list \<Rightarrow> refusals \<Rightarrow> (subtask \<Rightarrow> error + unit) \<Rightarrow> effect list \<Rightarrow> subtask list \<Rightarrow>
   files \<Rightarrow> subtask list \<Rightarrow> (error + unit) \<times> files \<times> subtask list" where
  "gather sched refused block effs [] fs attempted =
     (case run_effects refused fs effs of (r, fs') \<Rightarrow> (r, fs', attempted))"
| "gather sched refused block [] (task # tasks) fs attempted =
     (case calendar_loop block (task # tasks) attempted of (r, done) \<Rightarrow> (r, fs, done))"
| "gather sched refused block (eff # effs) (task # tasks) fs attempted =
     (if sched \<noteq> [] \<and> hd sched = Block_turn
      then (case block task of
              Inl e \<Rightarrow> (Inl e, fs, attempted @ [task])
            | Inr _ \<Rightarrow> gather (tl sched) refused block (eff # effs) tasks fs (attempted @ [task]))
      else (case perform refused fs eff of
              Inl e \<Rightarrow> (Inl e, fs, attempted)
            | Inr fs' \<Rightarrow> gather (tl sched) refused block effs (task # tasks) fs' attempted))"

text \<open>The gather of \<open>save_schedule\<close> and \<open>mock_async_calendar_block\<close> in \<open>async_main\<close>.\<close>

definition async_main_gather ::
  "turn list \<Rightarrow> pylib \<Rightarrow> timestamp \<Rightarrow> refusals \<Rightarrow> (subtask \<Rightarrow> error + unit) \<Rightarrow> files \<Rightarrow>
   string \<Rightarrow> schedule \<Rightarrow> (error + unit) \<times> files \<times> subtask list" where
  "async_main_gather sched lib now refused block fs path s =
     gather sched refused block (save_effects lib now path s) (subtasks s) fs []"

text \<open>
  An operation that does not raise, and the subtasks that the notification loop attempts
  when it runs alone: those before the first failing call, and the failing one.
\<close>

definition performs :: "refusals \<Rightarrow> effect \<Rightarrow> bool" where
  "performs refused eff = (case eff of Open_w path \<Rightarrow> refused path = None | Write path text \<Rightarrow> True)"

definition attempts :: "(subtask \<Rightarrow> error + unit) \<Rightarrow> subtask list \<Rightarrow> subtask list" where
  "attempts block tasks =
     takeWhile (\<lambda>t. \<not> isl (block t)) tasks @ take 1 (dropWhile (\<lambda>t. \<not> isl (block t)) tasks)"

section \<open>Example inputs\<close>

definition example_goal :: goal where
  "example_goal = \<lparr>title = ''Launch site'', description = ''Launch site''\<rparr>"

definition scenario1_text :: string where
  "scenario1_text =
     ''1. Buy domain'' @ LF # ''2. Write content'' @ LF # ''Some heading'' @ LF # ''3. Publish site''"

text \<open>A collaborator that cannot be reached, and one that returns the empty text.\<close>

definition failing_kickoff :: "string \<Rightarrow> string \<Rightarrow> error + string" where
  "failing_kickoff t d = Inl (RuntimeError ''connection refused'')"

definition empty_kickoff :: "string \<Rightarrow> string \<Rightarrow> error + string" where
  "empty_kickoff t d = Inr []"

text \<open>A numbered line that ends with a hyphen and a tab.\<close>

definition trailing_hyphen_text :: string where
  "trailing_hyphen_text = ''1. Draft outline -'' @ [CHR 0x09]"

text \<open>Scenario 3: three subtasks, the first with an estimate of 15 minutes.\<close>

definition scenario3_schedule :: schedule where
  "scenario3_schedule =
     \<lparr>goal_of = example_goal,
      subtasks = [(new_subtask example_goal 1 ''1. Buy domain'')\<lparr>estimate_minutes := Some 15\<rparr>,
                  new_subtask example_goal 2 ''2. Write content'',
                  new_subtask example_goal 3 ''3. Publish site'']\<rparr>"

definition scenario3_timed :: schedule where
  "scenario3_timed = with_time_blocks (on_2024_01_01 9 0) scenario3_schedule"

text \<open>
  A library for the examples: a printer of compact JSON, a timestamp written as the decimal
  numeral of its microseconds, and a JSON parser that knows one document, the record of
  \<open>scenario3_timed\<close> saved at 08:55.
\<close>

fun render_json :: "json \<Rightarrow> string" where
  "render_json JNull = ''null''"
| "render_json (JInt i) = str_int i"
| "render_json (JStr v) = CHR 0x22 # v @ [CHR 0x22]"
| "render_json (JArr js) = ''['' @ concat (map (\<lambda>j. render_json j @ '','') js) @ '']''"
| "render_json (JObj kvs) =
     ''{'' @ concat (map (\<lambda>(k, j). CHR 0x22 # k @ CHR 0x22 # '':'' @ render_json j @ '','') kvs) @ ''}''"

definition read_int :: "string \<Rightarrow> error + int" where
  "read_int v = Inr (int (nat_of_digits v))"

definition example_printer :: pylib where
  "example_printer =
     \<lparr>json_dumps = render_json, json_loads = (\<lambda>content. Inl JSONDecodeError),
      isoformat = str_int, parse_datetime = read_int\<rparr>"

definition example_now :: timestamp where
  "example_now = on_2024_01_01 8 55"

definition example_record :: json where
  "example_record = save_payload example_printer example_now scenario3_timed"

definition example_lib :: pylib where
  "example_lib =
     example_printer
       \<lparr>json_loads := (\<lambda>content. if content = render_json example_record then Inr example_record
                                   else Inl JSONDecodeError)\<rparr>"

text \<open>The files before a save: \<open>schedule.json\<close> holds an earlier record.\<close>

definition example_files :: files where
  "example_files = [''schedule.json'' \<mapsto> ''{\"saved_at\":\"0\",}'']"

text \<open>A path whose directory is missing.\<close>

definition missing_directory :: refusals where
  "missing_directory = [''out/schedule.json'' \<mapsto> FileNotFoundError ''out/schedule.json'']"

text \<open>A calendar that refuses the subtask of order 1.\<close>

definition failing_block :: "subtask \<Rightarrow> error + unit" where
  "failing_block task =
     (if order task = 1 then Inl (RuntimeError ''calendar unavailable'') else Inr ())"

section \<open>Properties of the parser\<close>

lemma numbered_item_nonempty: "numbered_item line \<Longrightarrow> line \<noteq> []"
  by (auto simp: numbered_item_def)

lemma SubTask_numbered:
  "numbered_item line \<Longrightarrow> 0 < idx \<Longrightarrow> i = ''task-'' @ str_int idx \<Longrightarrow>
   SubTask i (title g) line idx = Inr (new_subtask g idx line)"
  by (simp add: SubTask_def subtask_valid_def new_subtask_def numbered_item_nonempty)

lemma subtasks_loop_retained:
  "0 < idx \<Longrightarrow> subtasks_loop g idx lines acc = Inr (acc @ retained g idx lines)"
proof (induction lines arbitrary: idx acc)
  case Nil
  then show ?case by simp
next
  case (Cons line lines)
  have pos: "0 < idx + 1" using Cons.prems by simp
  show ?case
  proof (cases "numbered_item line")
    case True
    have "SubTask (''task-'' @ str_int idx) (title g) line idx = Inr (new_subtask g idx line)"
      using True Cons.prems by (rule SubTask_numbered) simp
    with True show ?thesis
      using Cons.IH [OF pos] by simp
  next
    case False
    then show ?thesis
      using Cons.IH [OF pos] by simp
  qed
qed

lemma subtasks_from_llm_output_retained:
  "subtasks_from_llm_output text g = Inr (retained g 1 (cleaned_lines text))"
  by (simp add: subtasks_from_llm_output_def subtasks_loop_retained)

lemma retained_description: "map subtask.description (retained g idx lines) = filter numbered_item lines"
  by (induction lines arbitrary: idx) (auto simp: new_subtask_def)

lemma retained_index:
  "retained g idx lines =
     map (\<lambda>i. new_subtask g (idx + int i) (lines ! i))
       (filter (\<lambda>i. numbered_item (lines ! i)) [0..<length lines])"
proof (induction lines arbitrary: idx)
  case Nil
  then show ?case by simp
next
  case (Cons line lines)
  have upt: "[0..<length (line # lines)] = 0 # map Suc [0..<length lines]"
    by (simp add: upt_conv_Cons map_Suc_upt del: upt_Suc)
  have shift: "\<And>i. idx + 1 + int i = idx + int (Suc i)"
    by simp
  show ?case
    unfolding upt using Cons.IH [of "idx + 1"]
    by (simp add: filter_map o_def shift del: of_nat_Suc)
qed

lemma retained_order_lower: "t \<in> set (retained g idx lines) \<Longrightarrow> idx \<le> order t"
  by (induction lines arbitrary: idx) (fastforce simp: new_subtask_def split: if_splits)+

lemma retained_sorted: "sorted_wrt (<) (map order (retained g idx lines))"
proof (induction lines arbitrary: idx)
  case Nil
  then show ?case by simp
next
  case (Cons line lines)
  have "\<And>t. t \<in> set (retained g (idx + 1) lines) \<Longrightarrow> idx < order t"
    using retained_order_lower [of _ g "idx + 1" lines] by fastforce
  then show ?case using Cons.IH [of "idx + 1"]
    by (auto simp: new_subtask_def)
qed

lemma retained_id: "t \<in> set (retained g idx lines) \<Longrightarrow> task_id t = ''task-'' @ str_int (order t)"
  by (induction lines arbitrary: idx) (auto simp: new_subtask_def split: if_splits)

lemma digit_val_digit_char: "d < 10 \<Longrightarrow> digit_val (digit_char d) = d"
  by (simp add: digit_val_def digit_char_def)

lemma nat_of_digits_str_nat: "nat_of_digits (str_nat n) = n"
proof (induction n rule: str_nat.induct)
  case (1 n)
  show ?case
  proof (cases "n < 10")
    case True
    then show ?thesis
      by (simp add: str_nat.simps [of n] nat_of_digits_def digit_val_digit_char)
  next
    case False
    then have "nat_of_digits (str_nat (n div 10)) = n div 10"
      using "1.IH" by simp
    with False show ?thesis
      by (simp add: str_nat.simps [of n] nat_of_digits_def digit_val_digit_char)
  qed
qed

lemma str_nat_inj: "str_nat a = str_nat b \<Longrightarrow> a = b"
  by (metis nat_of_digits_str_nat)

lemma str_int_inj: "0 \<le> a \<Longrightarrow> 0 \<le> b \<Longrightarrow> str_int a = str_int b \<Longrightarrow> a = b"
  by (auto simp: str_int_def dest: str_nat_inj)

lemma retained_distinct_id: "0 \<le> idx \<Longrightarrow> distinct (map task_id (retained g idx lines))"
proof (induction lines arbitrary: idx)
  case Nil
  then show ?case by simp
next
  case (Cons line lines)
  have fresh: "''task-'' @ str_int idx \<notin> task_id ` set (retained g (idx + 1) lines)"
  proof
    assume "''task-'' @ str_int idx \<in> task_id ` set (retained g (idx + 1) lines)"
    then obtain t where t: "t \<in> set (retained g (idx + 1) lines)"
      and eq: "task_id t = ''task-'' @ str_int idx" by auto
    have "idx + 1 \<le> order t" using t by (rule retained_order_lower)
    moreover have "str_int (order t) = str_int idx"
      using eq retained_id [OF t] by simp
    ultimately show False
      using str_int_inj [of "order t" idx] Cons.prems by simp
  qed
  show ?case
    using Cons.IH [of "idx + 1"] Cons.prems fresh by (simp add: new_subtask_def)
qed

lemma scenario1_parsed:
  "subtasks_from_llm_output scenario1_text example_goal =
     Inr [new_subtask example_goal 1 ''1. Buy domain'',
          new_subtask example_goal 2 ''2. Write content'',
          new_subtask example_goal 4 ''3. Publish site'']"
  by code_simp

text \<open>
  Claim C1 as stated: every subtask's order, and the number in its id, is its rank among the
  retained lines, so that the text of scenario 1 gives the orders 1, 2, 3. The parser gives
  the orders 1, 2, 4 and the ids task-1, task-2, task-4 there: the heading is counted.
\<close>

theorem parser_order_counterexample:
  "map_sum id (map order) (subtasks_from_llm_output scenario1_text example_goal) = Inr [1, 2, 4] \<and>
   map_sum id (map order) (subtasks_from_llm_output scenario1_text example_goal) \<noteq> Inr [1, 2, 3] \<and>
   map_sum id (map task_id) (subtasks_from_llm_output scenario1_text example_goal) =
     Inr [''task-1'', ''task-2'', ''task-4'']"
  by code_simp

text \<open>
  Claim C1, amended: the parser returns one subtask for each line that matches the
  numbered-list pattern, in the order of the lines and with the line as its description;
  the order of a subtask, and the number in its id, is the 1-based position of its line among
  all the cleaned lines of the text, retained or not. The text of scenario 1 gives the three
  descriptions with the orders 1, 2, 4.
\<close>

theorem parser_order_is_line_position:
  "subtasks_from_llm_output text g =
     Inr (map (\<lambda>i. \<lparr>task_id = ''task-'' @ str_int (int i + 1), goal_title = title g,
                     description = cleaned_lines text ! i, order = int i + 1,
                     estimate_minutes = None, scheduled_start = None, scheduled_end = None\<rparr>)
            (filter (\<lambda>i. numbered_item (cleaned_lines text ! i)) [0..<length (cleaned_lines text)]))
   \<and> map_sum id length (subtasks_from_llm_output text g) =
       Inr (length (filter numbered_item (cleaned_lines text)))
   \<and> map_sum id (map subtask.description) (subtasks_from_llm_output scenario1_text g) =
       Inr [''1. Buy domain'', ''2. Write content'', ''3. Publish site'']
   \<and> map_sum id (map order) (subtasks_from_llm_output scenario1_text g) = Inr [1, 2, 4]"
proof -
  have a: "subtasks_from_llm_output text g =
     Inr (map (\<lambda>i. \<lparr>task_id = ''task-'' @ str_int (int i + 1), goal_title = title g,
                     description = cleaned_lines text ! i, order = int i + 1,
                     estimate_minutes = None, scheduled_start = None, scheduled_end = None\<rparr>)
            (filter (\<lambda>i. numbered_item (cleaned_lines text ! i)) [0..<length (cleaned_lines text)]))"
    unfolding subtasks_from_llm_output_retained retained_index new_subtask_def
    by (simp add: add.commute)
  have b: "map_sum id length (subtasks_from_llm_output text g) =
       Inr (length (filter numbered_item (cleaned_lines text)))"
    unfolding subtasks_from_llm_output_retained
    using arg_cong [OF retained_description [of g 1 "cleaned_lines text"], of length]
    by simp
  have lines: "cleaned_lines scenario1_text =
      [''1. Buy domain'', ''2. Write content'', ''Some heading'', ''3. Publish site'']"
    by code_simp
  have n: "filter numbered_item [''1. Buy domain'', ''2. Write content'', ''Some heading'', ''3. Publish site'']
      = [''1. Buy domain'', ''2. Write content'', ''3. Publish site'']"
    by code_simp
  have c: "map_sum id (map subtask.description) (subtasks_from_llm_output scenario1_text g) =
       Inr [''1. Buy domain'', ''2. Write content'', ''3. Publish site'']"
  proof -
    have "map subtask.description (retained g 1 (cleaned_lines scenario1_text)) =
        [''1. Buy domain'', ''2. Write content'', ''3. Publish site'']"
      by (simp only: retained_description lines n)
    then show ?thesis
      by (simp only: subtasks_from_llm_output_retained map_sum.simps id_apply)
  qed
  have n1: "numbered_item ''1. Buy domain''" "numbered_item ''2. Write content''"
     "\<not> numbered_item ''Some heading''" "numbered_item ''3. Publish site''"
    by code_simp+
  have d: "map_sum id (map order) (subtasks_from_llm_output scenario1_text g) = Inr [1, 2, 4]"
    unfolding subtasks_from_llm_output_retained lines by (simp add: n1 new_subtask_def)
  from a b c d show ?thesis by blast
qed

text \<open>
  Claim C8: the parser never raises. For every text and goal it returns a list of subtasks,
  every constructor call it makes passing the checks of the data model, and for the empty
  text the list is empty.
\<close>

theorem parser_total:
  "(\<exists>ts. subtasks_from_llm_output text g = Inr ts) \<and> subtasks_from_llm_output [] g = Inr []"
proof
  show "\<exists>ts. subtasks_from_llm_output text g = Inr ts"
    by (simp add: subtasks_from_llm_output_retained)
  have "cleaned_lines [] = []"
    by (simp add: cleaned_lines_def splitlines_def)
  then show "subtasks_from_llm_output [] g = Inr []"
    by (simp add: subtasks_from_llm_output_retained)
qed

text \<open>
  Claim C10: for every text and goal the orders of the returned subtasks increase strictly
  along the list, the ids are pairwise distinct, and each id is \<open>task-\<close> followed by the
  decimal numeral of the subtask's own order. The witness is scenario 1, where the orders
  1, 2, 4 are not contiguous.
\<close>

theorem parser_invariant:
  "\<exists>ts. subtasks_from_llm_output text g = Inr ts \<and>
        sorted_wrt (<) (map order ts) \<and>
        distinct (map task_id ts) \<and>
        (\<forall>t \<in> set ts. task_id t = ''task-'' @ str_int (order t))"
  using retained_sorted [of g 1 "cleaned_lines text"]
        retained_distinct_id [of 1 g "cleaned_lines text"]
        retained_id [of _ g 1 "cleaned_lines text"]
  by (simp add: subtasks_from_llm_output_retained)

theorem parser_invariant_witness:
  "\<exists>ts. subtasks_from_llm_output scenario1_text example_goal = Inr ts \<and>
        map order ts = [1, 2, 4] \<and>
        sorted_wrt (<) (map order ts) \<and>
        distinct (map task_id ts) \<and>
        map task_id ts = map (\<lambda>t. ''task-'' @ str_int (order t)) ts"
proof -
  obtain ts where ts: "subtasks_from_llm_output scenario1_text example_goal = Inr ts"
    and inv: "sorted_wrt (<) (map order ts)" "distinct (map task_id ts)"
       "\<forall>t \<in> set ts. task_id t = ''task-'' @ str_int (order t)"
    using parser_invariant [of scenario1_text example_goal] by blast
  have "map order ts = [1, 2, 4]"
    using ts scenario1_parsed by (auto simp: new_subtask_def)
  with ts inv show ?thesis by (intro exI [of _ ts]) simp
qed

section \<open>Running the parser on its own output\<close>

lemma last_dropWhile_nonempty: "dropWhile P xs \<noteq> [] \<Longrightarrow> last (dropWhile P xs) = last xs"
  by (metis last_appendR takeWhile_dropWhile_id)

lemma strip_by_fixed: "s = [] \<or> (\<not> P (hd s) \<and> \<not> P (last s)) \<Longrightarrow> strip_by P s = s"
proof (cases "s = []")
  case True
  then show ?thesis by (simp add: strip_by_def)
next
  case False
  assume "s = [] \<or> (\<not> P (hd s) \<and> \<not> P (last s))"
  with False have h: "\<not> P (hd s)" and l: "\<not> P (last s)" by auto
  have a: "dropWhile P s = s" using h by (simp add: dropWhile_eq_self_iff)
  have "\<not> P (hd (rev s))" using l False by (simp add: hd_rev)
  then have "dropWhile P (rev s) = rev s" by (simp add: dropWhile_eq_self_iff)
  with a show ?thesis by (simp add: strip_by_def)
qed

lemma strip_by_ends:
  assumes "strip_by P s \<noteq> []"
  shows "\<not> P (hd (strip_by P s))" and "\<not> P (last (strip_by P s))"
proof -
  let ?a = "dropWhile P s"
  let ?b = "dropWhile P (rev ?a)"
  have b: "?b \<noteq> []" using assms by (simp add: strip_by_def)
  have a: "?a \<noteq> []"
  proof
    assume e: "?a = []"
    have "?b = []" unfolding e by simp
    with b show False by blast
  qed
  have "\<not> P (hd ?b)" using b by (rule hd_dropWhile)
  then show "\<not> P (last (strip_by P s))" using b by (simp add: strip_by_def last_rev)
  have "last ?b = last (rev ?a)" using b by (rule last_dropWhile_nonempty)
  also have "\<dots> = hd ?a" using a by (simp add: last_rev)
  finally have "hd (rev ?b) = hd ?a" using b by (simp add: hd_rev)
  moreover have "\<not> P (hd ?a)" using a by (rule hd_dropWhile)
  ultimately show "\<not> P (hd (strip_by P s))" by (simp add: strip_by_def)
qed

lemma set_strip_by: "set (strip_by P s) \<subseteq> set s"
proof
  fix c assume "c \<in> set (strip_by P s)"
  then have "c \<in> set (dropWhile P (rev (dropWhile P s)))" by (simp add: strip_by_def)
  then have "c \<in> set (rev (dropWhile P s))" by (rule set_dropWhileD)
  then show "c \<in> set s" using set_dropWhileD [of c P s] by simp
qed

lemma not_linebreak_CR: "\<not> is_linebreak c \<Longrightarrow> c \<noteq> CR"
  by (auto simp: is_linebreak_def CR_def)

lemma linebreak_LF: "is_linebreak LF" "LF \<noteq> CR"
  by (simp_all add: is_linebreak_def LF_def CR_def)

lemma splitlines_from_no_linebreak:
  "\<forall>c \<in> set cur. \<not> is_linebreak c \<Longrightarrow> l \<in> set (splitlines_from cur s) \<Longrightarrow> c \<in> set l \<Longrightarrow>
   \<not> is_linebreak c"
proof (induction cur s rule: splitlines_from.induct)
  case (1 cur)
  then show ?case by (auto split: if_splits)
next
  case (2 cur d ds)
  show ?case
  proof (cases "d = CR \<and> ds \<noteq> [] \<and> hd ds = LF")
    case True
    then show ?thesis using 2 by auto
  next
    case False
    note nocrlf = this
    show ?thesis
    proof (cases "is_linebreak d")
      case True
      then show ?thesis using 2 nocrlf by auto
    next
      case False
      then show ?thesis using 2 nocrlf by auto
    qed
  qed
qed

lemma splitlines_from_append:
  "\<forall>c \<in> set d. \<not> is_linebreak c \<Longrightarrow> splitlines_from cur (d @ rest) = splitlines_from (cur @ d) rest"
  by (induction d arbitrary: cur) (auto simp: not_linebreak_CR)

lemma splitlines_from_LF: "splitlines_from cur (LF # rest) = cur # splitlines_from [] rest"
  by (simp add: linebreak_LF)

lemma splitlines_join_lines:
  "\<forall>d \<in> set ds. d \<noteq> [] \<and> (\<forall>c \<in> set d. \<not> is_linebreak c) \<Longrightarrow> splitlines (join_lines ds) = ds"
proof (induction ds rule: join_lines.induct)
  case 1
  then show ?case by (simp add: splitlines_def)
next
  case (2 l)
  then have "splitlines_from [] (l @ []) = splitlines_from ([] @ l) []"
    by (intro splitlines_from_append) simp
  with 2 show ?case by (simp add: splitlines_def)
next
  case (3 l m ls)
  then have "splitlines_from [] (l @ LF # join_lines (m # ls)) =
             splitlines_from ([] @ l) (LF # join_lines (m # ls))"
    by (intro splitlines_from_append) simp
  with 3 show ?case by (simp add: splitlines_def splitlines_from_LF del: splitlines_from.simps)
qed

lemma numbered_item_hd: "numbered_item line \<Longrightarrow> is_digit (hd line)"
  by (cases line) (auto simp: numbered_item_def split: if_splits)

lemma digit_not_stripped: "is_digit c \<Longrightarrow> \<not> is_space c \<and> c \<notin> set ''- ''"
  by (auto simp: is_digit_def is_space_def Let_def)

lemma cleaned_lines_shape:
  assumes "l \<in> set (cleaned_lines text)"
  shows "\<forall>c \<in> set l. \<not> is_linebreak c" and "l \<noteq> [] \<Longrightarrow> \<not> is_space (last l)"
proof -
  from assms obtain ln where ln: "ln \<in> set (splitlines text)"
    and l: "l = strip (strip_chars ''- '' ln)"
    by (auto simp: cleaned_lines_def)
  have "set l \<subseteq> set ln"
    using set_strip_by set_strip_by unfolding l strip_def strip_chars_def by blast
  moreover have "\<forall>c \<in> set ln. \<not> is_linebreak c"
    using splitlines_from_no_linebreak [of "[]" ln "text"] ln by (simp add: splitlines_def)
  ultimately show "\<forall>c \<in> set l. \<not> is_linebreak c" by blast
  show "l \<noteq> [] \<Longrightarrow> \<not> is_space (last l)"
    unfolding l strip_def by (rule strip_by_ends)
qed

lemma clean_line_fixed:
  assumes "numbered_item d" and "\<not> is_space (last d)" and "last d \<noteq> CHR ''-''"
  shows "strip d = d" and "strip (strip_chars ''- '' d) = d"
proof -
  have ne: "d \<noteq> []" using assms(1) by (rule numbered_item_nonempty)
  have hd: "\<not> is_space (hd d)" "hd d \<notin> set ''- ''"
    using digit_not_stripped [OF numbered_item_hd [OF assms(1)]] by simp_all
  have "last d \<noteq> CHR '' ''" using assms(2) by (auto simp: is_space_def)
  then have lst: "last d \<notin> set ''- ''" using assms(3) by simp
  show s: "strip d = d" unfolding strip_def using hd(1) assms(2) by (intro strip_by_fixed) simp
  have "strip_chars ''- '' d = d"
    unfolding strip_chars_def using hd(2) lst by (intro strip_by_fixed) simp
  with s show "strip (strip_chars ''- '' d) = d" by simp
qed

lemma cleaned_lines_join_lines:
  assumes "\<forall>d \<in> set ds. numbered_item d \<and> \<not> is_space (last d) \<and> last d \<noteq> CHR ''-'' \<and>
             (\<forall>c \<in> set d. \<not> is_linebreak c)"
  shows "cleaned_lines (join_lines ds) = ds"
proof -
  have "splitlines (join_lines ds) = ds"
    using assms numbered_item_nonempty by (intro splitlines_join_lines) blast
  moreover have "filter (\<lambda>ln. strip ln \<noteq> []) ds = ds"
    using assms clean_line_fixed(1) numbered_item_nonempty by (intro filter_True) metis
  moreover have "map (\<lambda>ln. strip (strip_chars ''- '' ln)) ds = ds"
    using assms clean_line_fixed(2) by (intro map_idI) blast
  ultimately show ?thesis by (simp add: cleaned_lines_def)
qed

text \<open>
  Claim C9 as stated: for every text, the parser run on the descriptions it produced, joined
  by newlines, yields the same descriptions. A numbered line that ends with a hyphen and a
  tab gives a description that ends with the hyphen; the second run strips that hyphen and
  the blank before it.
\<close>

theorem parser_rerun_counterexample:
  "map_sum id (map subtask.description) (subtasks_from_llm_output trailing_hyphen_text example_goal) =
     Inr [''1. Draft outline -''] \<and>
   map_sum id (map subtask.description)
     (subtasks_from_llm_output (join_lines [''1. Draft outline -'']) example_goal) =
     Inr [''1. Draft outline'']"
  by code_simp

text \<open>
  Claim C9, amended: for every text whose produced descriptions do not end with a hyphen,
  the parser run on the descriptions joined by newlines, for any goal, yields the same
  descriptions in the same order.
\<close>

theorem parser_rerun_same_descriptions:
  assumes "subtasks_from_llm_output text g = Inr ts"
    and "\<forall>t \<in> set ts. last (subtask.description t) \<noteq> CHR ''-''"
  shows "map_sum id (map subtask.description)
           (subtasks_from_llm_output (join_lines (map subtask.description ts)) g') =
         Inr (map subtask.description ts)"
proof -
  let ?ds = "map subtask.description ts"
  have ts: "ts = retained g 1 (cleaned_lines text)"
    using assms(1) by (simp add: subtasks_from_llm_output_retained)
  have ds: "?ds = filter numbered_item (cleaned_lines text)"
    unfolding ts by (rule retained_description)
  have shape: "\<forall>d \<in> set ?ds. numbered_item d \<and> \<not> is_space (last d) \<and> last d \<noteq> CHR ''-'' \<and>
                 (\<forall>c \<in> set d. \<not> is_linebreak c)"
  proof
    fix d assume d: "d \<in> set ?ds"
    then have n: "numbered_item d" and c: "d \<in> set (cleaned_lines text)"
      unfolding ds by simp_all
    have "d \<noteq> []" using n by (rule numbered_item_nonempty)
    then have "\<not> is_space (last d)" using c cleaned_lines_shape(2) by blast
    moreover have "\<forall>c \<in> set d. \<not> is_linebreak c" using c by (rule cleaned_lines_shape(1))
    moreover have "last d \<noteq> CHR ''-''" using d assms(2) by auto
    ultimately show "numbered_item d \<and> \<not> is_space (last d) \<and> last d \<noteq> CHR ''-'' \<and>
                 (\<forall>c \<in> set d. \<not> is_linebreak c)" using n by blast
  qed
  then have "cleaned_lines (join_lines ?ds) = ?ds"
    by (rule cleaned_lines_join_lines)
  moreover have "filter numbered_item ?ds = ?ds"
    using shape by (intro filter_True) blast
  ultimately have "map subtask.description (retained g' 1 (cleaned_lines (join_lines ?ds))) = ?ds"
    by (simp only: retained_description)
  then show ?thesis
    by (simp only: subtasks_from_llm_output_retained map_sum.simps id_apply)
qed

theorem parser_rerun_same_descriptions_witness:
  "subtasks_from_llm_output scenario1_text example_goal =
     Inr [new_subtask example_goal 1 ''1. Buy domain'',
          new_subtask example_goal 2 ''2. Write content'',
          new_subtask example_goal 4 ''3. Publish site''] \<and>
   last ''1. Buy domain'' \<noteq> CHR ''-'' \<and> last ''2. Write content'' \<noteq> CHR ''-'' \<and>
   last ''3. Publish site'' \<noteq> CHR ''-'' \<and>
   map_sum id (map subtask.description)
     (subtasks_from_llm_output
        (join_lines [''1. Buy domain'', ''2. Write content'', ''3. Publish site'']) example_goal) =
     Inr [''1. Buy domain'', ''2. Write content'', ''3. Publish site'']"
proof -
  have h: "\<forall>t \<in> set [new_subtask example_goal 1 ''1. Buy domain'',
          new_subtask example_goal 2 ''2. Write content'',
          new_subtask example_goal 4 ''3. Publish site'']. last (subtask.description t) \<noteq> CHR ''-''"
    by (simp add: new_subtask_def)
  show ?thesis
    using parser_rerun_same_descriptions [OF scenario1_parsed h, of example_goal] scenario1_parsed
    by (simp add: new_subtask_def)
qed

section \<open>Properties of the pipeline\<close>

lemma retained_distinct_order: "distinct (map order (retained g idx lines))"
  using retained_sorted [of g idx lines] by (simp add: strict_sorted_iff)

lemma Schedule_parsed:
  "Schedule g (retained g' 1 lines) = Inr \<lparr>goal_of = g, subtasks = retained g' 1 lines\<rparr>"
  by (simp add: Schedule_def schedule_valid_def retained_distinct_id retained_distinct_order)

text \<open>
  Claim C2 as stated: when the generation collaborator raises, \<open>plan_and_execute\<close> still
  returns a schedule with no subtasks. It raises what the collaborator raised.
\<close>

theorem plan_and_execute_counterexample:
  "plan_and_execute failing_kickoff example_goal = Inl (RuntimeError ''connection refused'')"
  by (simp add: plan_and_execute_def failing_kickoff_def)

text \<open>
  Claim C2, amended: when the generation collaborator returns a text, \<open>plan_and_execute\<close>
  returns the schedule of the goal with the subtasks the parser reads from the text, which
  for the empty text is the schedule with no subtasks; when the collaborator raises,
  \<open>plan_and_execute\<close> raises the same exception.
\<close>

theorem plan_and_execute_result:
  "(kickoff (title g) (goal.description g) = Inl e \<longrightarrow> plan_and_execute kickoff g = Inl e) \<and>
   (kickoff (title g) (goal.description g) = Inr [] \<longrightarrow>
      plan_and_execute kickoff g = Inr \<lparr>goal_of = g, subtasks = []\<rparr>) \<and>
   (kickoff (title g) (goal.description g) = Inr planner_text \<longrightarrow>
      (\<exists>ts. subtasks_from_llm_output planner_text g = Inr ts \<and>
            plan_and_execute kickoff g = Inr \<lparr>goal_of = g, subtasks = ts\<rparr>))"
proof (intro conjI impI)
  assume "kickoff (title g) (goal.description g) = Inl e"
  then show "plan_and_execute kickoff g = Inl e"
    by (simp add: plan_and_execute_def)
next
  have c: "cleaned_lines [] = []"
    by (simp add: cleaned_lines_def splitlines_def)
  assume "kickoff (title g) (goal.description g) = Inr []"
  then show "plan_and_execute kickoff g = Inr \<lparr>goal_of = g, subtasks = []\<rparr>"
    using Schedule_parsed [of g g "[]"]
    by (simp add: plan_and_execute_def subtasks_from_llm_output_retained c
        schedule_from_executor_output_def)
next
  assume "kickoff (title g) (goal.description g) = Inr planner_text"
  then show "\<exists>ts. subtasks_from_llm_output planner_text g = Inr ts \<and>
            plan_and_execute kickoff g = Inr \<lparr>goal_of = g, subtasks = ts\<rparr>"
    by (simp add: plan_and_execute_def subtasks_from_llm_output_retained Schedule_parsed
        schedule_from_executor_output_def)
qed

theorem plan_and_execute_result_witness:
  "empty_kickoff (title example_goal) (goal.description example_goal) = Inr [] \<and>
   plan_and_execute empty_kickoff example_goal = Inr \<lparr>goal_of = example_goal, subtasks = []\<rparr> \<and>
   failing_kickoff (title example_goal) (goal.description example_goal) =
     Inl (RuntimeError ''connection refused'') \<and>
   plan_and_execute failing_kickoff example_goal = Inl (RuntimeError ''connection refused'')"
  using plan_and_execute_result [of empty_kickoff example_goal ValidationError "[]"]
        plan_and_execute_result [of failing_kickoff example_goal "RuntimeError ''connection refused''" "[]"]
  by (simp add: empty_kickoff_def failing_kickoff_def)

section \<open>Properties of the load\<close>

text \<open>
  Claim C7: for every path at which no record exists, \<open>load_schedule\<close> fails with the
  not-found error that names the path, and so returns no schedule, default or empty.
\<close>

theorem load_schedule_not_found:
  "fs path = None \<Longrightarrow> load_schedule lib fs path = Inl (FileNotFoundError path)"
  by (simp add: load_schedule_def)

theorem load_schedule_not_found_witness:
  "Map.empty ''schedule.json'' = (None :: string option) \<and>
   load_schedule example_lib Map.empty ''schedule.json'' = Inl (FileNotFoundError ''schedule.json'')"
  using load_schedule_not_found [of Map.empty "''schedule.json''" example_lib]
  by simp

section \<open>Properties of the save\<close>

lemma save_schedule_cancelled_0: "save_schedule_cancelled 0 lib now fs path s = fs"
  by (simp add: save_schedule_cancelled_def)

lemma save_schedule_cancelled_1: "save_schedule_cancelled (Suc 0) lib now fs path s = fs(path \<mapsto> [])"
  by (simp add: save_schedule_cancelled_def save_effects_def)

lemma save_schedule_cancelled_2:
  "save_schedule_cancelled (Suc (Suc k)) lib now fs path s =
     fs(path \<mapsto> json_dumps lib (save_payload lib now s))"
  by (simp add: save_schedule_cancelled_def save_effects_def)

lemma save_schedule_written:
  "refused path = None \<Longrightarrow>
   save_schedule lib now refused fs path s =
     (Inr (), fs(path \<mapsto> json_dumps lib (save_payload lib now s)))"
  by (simp add: save_schedule_def save_effects_def)

lemma save_schedule_refused:
  "refused path = Some e \<Longrightarrow> save_schedule lib now refused fs path s = (Inl e, fs)"
  by (simp add: save_schedule_def save_effects_def)

lemma save_payload_cong:
  "isoformat lib = isoformat lib' \<Longrightarrow> save_payload lib now s = save_payload lib' now s"
  by (simp add: save_payload_def model_dump_def dump_subtask_def dump_opt_datetime_def
      split: option.splits)

lemma example_lib_fields:
  "json_dumps example_lib = render_json" "isoformat example_lib = str_int"
  "parse_datetime example_lib = read_int" "isoformat example_printer = str_int"
  by (simp_all add: example_lib_def example_printer_def)

lemma example_lib_payload:
  "save_payload example_lib example_now scenario3_timed = example_record"
  unfolding example_record_def by (rule save_payload_cong) (simp add: example_lib_fields)

lemma example_record_nonempty: "render_json example_record \<noteq> []"
  by (simp add: example_record_def save_payload_def)

text \<open>
  Claim C3 as stated: after a save that is cancelled partway, the file holds either its
  previous content or the full new record. A save over an earlier record that is cancelled
  after the file was opened leaves the file empty, which is neither.
\<close>

theorem save_schedule_cancelled_counterexample:
  "save_schedule_cancelled 1 example_lib example_now example_files ''schedule.json'' scenario3_timed
     ''schedule.json'' = Some [] \<and>
   save_schedule_cancelled 1 example_lib example_now example_files ''schedule.json'' scenario3_timed
     ''schedule.json'' \<noteq> example_files ''schedule.json'' \<and>
   save_schedule_cancelled 1 example_lib example_now example_files ''schedule.json'' scenario3_timed
     ''schedule.json'' \<noteq>
   snd (save_schedule example_lib example_now Map.empty example_files ''schedule.json''
          scenario3_timed) ''schedule.json''"
  using example_record_nonempty
  by (auto simp: example_files_def save_schedule_cancelled_1 save_schedule_written
      example_lib_fields example_lib_payload)

text \<open>
  Claim C3, amended: \<open>save_schedule\<close> writes the file in place. A save cancelled before the
  file is opened leaves the files as they were; a save cancelled after the file is opened
  and before the write is done leaves an empty file at the path; a save that completes its
  write leaves the full new record at the path. The other paths are never touched. A save
  whose path cannot be opened raises what the open raises and leaves the files as they were.
\<close>

theorem save_schedule_in_place:
  "save_schedule_cancelled 0 lib now fs path s = fs \<and>
   save_schedule_cancelled 1 lib now fs path s = fs(path \<mapsto> []) \<and>
   save_schedule_cancelled (2 + k) lib now fs path s =
     fs(path \<mapsto> json_dumps lib (save_payload lib now s)) \<and>
   save_schedule lib now refused fs path s =
     (case refused path of
        None \<Rightarrow> (Inr (), fs(path \<mapsto> json_dumps lib (save_payload lib now s)))
      | Some e \<Rightarrow> (Inl e, fs))"
  using save_schedule_cancelled_2 [of k lib now fs path s]
  by (simp add: save_schedule_cancelled_0 save_schedule_cancelled_1 save_schedule_written
      save_schedule_refused split: option.splits)

section \<open>Properties of the schedule builder\<close>

lemma duration_of_timed [simp]:
  "duration_of (t\<lparr>scheduled_start := a, scheduled_end := b\<rparr>) = duration_of t"
  by (simp add: duration_of_def)

lemma length_assign_blocks [simp]: "length (assign_blocks c ts) = length ts"
  by (induction ts arbitrary: c) (simp_all add: Let_def)

lemma assign_blocks_untimed: "map untimed (assign_blocks c ts) = map untimed ts"
  by (induction ts arbitrary: c) (simp_all add: Let_def untimed_def)

lemma assign_blocks_order: "map order (assign_blocks c ts) = map order ts"
  by (induction ts arbitrary: c) (simp_all add: Let_def)

lemma assign_blocks_first: "ts \<noteq> [] \<Longrightarrow> scheduled_start (hd (assign_blocks c ts)) = Some c"
  by (cases ts) (simp_all add: Let_def)

lemma assign_blocks_span:
  "i < length ts \<Longrightarrow>
   \<exists>a. scheduled_start (assign_blocks c ts ! i) = Some a \<and>
       scheduled_end (assign_blocks c ts ! i) = Some (a + minutes (duration_of (assign_blocks c ts ! i)))"
proof (induction ts arbitrary: c i)
  case Nil
  then show ?case by simp
next
  case (Cons t ts)
  show ?case
  proof (cases i)
    case 0
    then show ?thesis by (simp add: Let_def)
  next
    case (Suc j)
    then have "j < length ts" using Cons.prems by simp
    from Cons.IH [OF this, of "c + minutes (duration_of t)"] show ?thesis
      using Suc by (simp add: Let_def)
  qed
qed

lemma assign_blocks_chain:
  "Suc i < length ts \<Longrightarrow>
   scheduled_start (assign_blocks c ts ! Suc i) = scheduled_end (assign_blocks c ts ! i)"
proof (induction ts arbitrary: c i)
  case Nil
  then show ?case by simp
next
  case (Cons t ts)
  show ?case
  proof (cases i)
    case 0
    then have "ts \<noteq> []" using Cons.prems by auto
    then have "scheduled_start (hd (assign_blocks (c + minutes (duration_of t)) ts)) =
               Some (c + minutes (duration_of t))"
      by (rule assign_blocks_first)
    moreover have "assign_blocks (c + minutes (duration_of t)) ts \<noteq> []"
      using \<open>ts \<noteq> []\<close> by (cases ts) (simp_all add: Let_def)
    ultimately show ?thesis using 0 by (simp add: Let_def hd_conv_nth)
  next
    case (Suc j)
    then have "Suc j < length ts" using Cons.prems by simp
    from Cons.IH [OF this, of "c + minutes (duration_of t)"] show ?thesis
      using Suc by (simp add: Let_def)
  qed
qed

lemma duration_positive:
  assumes "\<forall>t \<in> set ts. \<forall>m. estimate_minutes t = Some m \<longrightarrow> 0 < m" and "t \<in> set ts"
  shows "0 < minutes (duration_of t)"
  using assms by (auto simp: minutes_def duration_of_def default_duration_def split: option.splits)

lemma assign_blocks_estimate:
  "map estimate_minutes (assign_blocks c ts) = map estimate_minutes ts"
  by (induction ts arbitrary: c) (simp_all add: Let_def)

lemma scenario3_timed_value:
  "map scheduled_start (subtasks scenario3_timed) =
     [Some (on_2024_01_01 9 0), Some (on_2024_01_01 9 15), Some (on_2024_01_01 9 45)] \<and>
   map scheduled_end (subtasks scenario3_timed) =
     [Some (on_2024_01_01 9 15), Some (on_2024_01_01 9 45), Some (on_2024_01_01 10 15)]"
  by (simp add: scenario3_timed_def scenario3_schedule_def with_time_blocks_def new_subtask_def
      Let_def duration_of_def default_duration_def minutes_def on_2024_01_01_def)

text \<open>
  Claim C5: for every schedule whose estimates, where present, are positive, and every start
  time, the builder hands out the times along the subtasks in ascending order: the first
  subtask starts at the start time, each subtask ends its duration after its start, the
  duration being the estimate if present and 30 minutes otherwise, each start is before its
  end, and each subtask starts where the one before it ends. The other fields are kept. In
  scenario 3 the starts are 09:00, 09:15, 09:45 and the ends 09:15, 09:45, 10:15.
\<close>

theorem with_time_blocks_sequential:
  assumes "\<forall>t \<in> set (subtasks s). \<forall>m. estimate_minutes t = Some m \<longrightarrow> 0 < m"
  shows "sorted (map order (subtasks (with_time_blocks start s))) \<and>
     map untimed (subtasks (with_time_blocks start s)) = map untimed (sort_key order (subtasks s)) \<and>
     (subtasks s \<noteq> [] \<longrightarrow> scheduled_start (hd (subtasks (with_time_blocks start s))) = Some start) \<and>
     (\<forall>i < length (subtasks s).
        \<exists>a. scheduled_start (subtasks (with_time_blocks start s) ! i) = Some a \<and>
            scheduled_end (subtasks (with_time_blocks start s) ! i) =
              Some (a + minutes (duration_of (subtasks (with_time_blocks start s) ! i))) \<and>
            a < a + minutes (duration_of (subtasks (with_time_blocks start s) ! i))) \<and>
     (\<forall>i. Suc i < length (subtasks s) \<longrightarrow>
        scheduled_start (subtasks (with_time_blocks start s) ! Suc i) =
        scheduled_end (subtasks (with_time_blocks start s) ! i)) \<and>
     duration_of t = (case estimate_minutes t of Some m \<Rightarrow> m | None \<Rightarrow> 30) \<and>
     map scheduled_start (subtasks scenario3_timed) =
       [Some (on_2024_01_01 9 0), Some (on_2024_01_01 9 15), Some (on_2024_01_01 9 45)] \<and>
     map scheduled_end (subtasks scenario3_timed) =
       [Some (on_2024_01_01 9 15), Some (on_2024_01_01 9 45), Some (on_2024_01_01 10 15)]"
proof -
  let ?xs = "sort_key order (subtasks s)"
  let ?ts = "assign_blocks start ?xs"
  have ts: "subtasks (with_time_blocks start s) = ?ts"
    by (simp add: with_time_blocks_def)
  have len: "length ?xs = length (subtasks s)" by simp
  have a: "sorted (map order ?ts)"
    by (simp add: assign_blocks_order)
  have b: "map untimed ?ts = map untimed ?xs"
    by (rule assign_blocks_untimed)
  have c: "subtasks s \<noteq> [] \<longrightarrow> scheduled_start (hd ?ts) = Some start"
  proof
    assume "subtasks s \<noteq> []"
    then have "?xs \<noteq> []" using len by (metis length_0_conv)
    then show "scheduled_start (hd ?ts) = Some start" by (rule assign_blocks_first)
  qed
  have d: "\<forall>i < length (subtasks s).
        \<exists>a. scheduled_start (?ts ! i) = Some a \<and>
            scheduled_end (?ts ! i) = Some (a + minutes (duration_of (?ts ! i))) \<and>
            a < a + minutes (duration_of (?ts ! i))"
  proof (intro allI impI)
    fix i assume i: "i < length (subtasks s)"
    then have i': "i < length ?xs" by simp
    from assign_blocks_span [OF i', of start] obtain a where
      a: "scheduled_start (?ts ! i) = Some a"
         "scheduled_end (?ts ! i) = Some (a + minutes (duration_of (?ts ! i)))" by blast
    have "estimate_minutes (?ts ! i) = estimate_minutes (?xs ! i)"
      using arg_cong [OF assign_blocks_estimate [of start ?xs], of "\<lambda>l. l ! i"] i' by simp
    moreover have "?xs ! i \<in> set (subtasks s)"
      using i' by (metis nth_mem set_sort)
    ultimately have "\<forall>m. estimate_minutes (?ts ! i) = Some m \<longrightarrow> 0 < m"
      using assms by simp
    then have "0 < minutes (duration_of (?ts ! i))"
      by (auto simp: minutes_def duration_of_def default_duration_def split: option.splits)
    with a show "\<exists>a. scheduled_start (?ts ! i) = Some a \<and>
            scheduled_end (?ts ! i) = Some (a + minutes (duration_of (?ts ! i))) \<and>
            a < a + minutes (duration_of (?ts ! i))" by simp
  qed
  have e: "\<forall>i. Suc i < length (subtasks s) \<longrightarrow> scheduled_start (?ts ! Suc i) = scheduled_end (?ts ! i)"
    using assign_blocks_chain [of _ ?xs start] by simp
  have f: "duration_of t = (case estimate_minutes t of Some m \<Rightarrow> m | None \<Rightarrow> 30)"
    by (simp add: duration_of_def default_duration_def split: option.splits)
  from a b c d e f scenario3_timed_value show ?thesis
    unfolding ts by (intro conjI) blast+
qed

theorem with_time_blocks_sequential_witness:
  "map estimate_minutes (subtasks scenario3_schedule) = [Some 15, None, None] \<and>
   scheduled_start (hd (subtasks (with_time_blocks (on_2024_01_01 9 0) scenario3_schedule))) =
     Some (on_2024_01_01 9 0) \<and>
   scheduled_start (subtasks (with_time_blocks (on_2024_01_01 9 0) scenario3_schedule) ! Suc 0) =
     scheduled_end (subtasks (with_time_blocks (on_2024_01_01 9 0) scenario3_schedule) ! 0)"
proof -
  have h: "\<forall>t \<in> set (subtasks scenario3_schedule). \<forall>m. estimate_minutes t = Some m \<longrightarrow> 0 < m"
    by (simp add: scenario3_schedule_def new_subtask_def)
  have n: "subtasks scenario3_schedule \<noteq> []" "Suc 0 < length (subtasks scenario3_schedule)"
    by (simp_all add: scenario3_schedule_def)
  show ?thesis
    using with_time_blocks_sequential [OF h, of "on_2024_01_01 9 0"] n
    by (simp add: scenario3_schedule_def new_subtask_def)
qed

section \<open>Saving, then loading\<close>













lemma scenario3_timed_subtasks:
  "subtasks scenario3_timed =
     [\<lparr>task_id = ''task-1'', goal_title = ''Launch site'', description = ''1. Buy domain'',
        order = 1, estimate_minutes = Some 15,
        scheduled_start = Some (on_2024_01_01 9 0), scheduled_end = Some (on_2024_01_01 9 15)\<rparr>,
      \<lparr>task_id = ''task-2'', goal_title = ''Launch site'', description = ''2. Write content'',
        order = 2, estimate_minutes = None,
        scheduled_start = Some (on_2024_01_01 9 15), scheduled_end = Some (on_2024_01_01 9 45)\<rparr>,
      \<lparr>task_id = ''task-3'', goal_title = ''Launch site'', description = ''3. Publish site'',
        order = 3, estimate_minutes = None,
        scheduled_start = Some (on_2024_01_01 9 45), scheduled_end = Some (on_2024_01_01 10 15)\<rparr>]"
  by code_simp



section \<open>Properties of the notification loop and of the gather\<close>

lemma calendar_loop_attempted:
  "snd (calendar_loop block tasks attempted) =
     attempted @ takeWhile (\<lambda>t. \<not> isl (block t)) tasks @
       take 1 (dropWhile (\<lambda>t. \<not> isl (block t)) tasks)"
  by (induction tasks arbitrary: attempted) (auto split: sum.splits)

lemma calendar_loop_result:
  "fst (calendar_loop block tasks attempted) =
     (case dropWhile (\<lambda>t. \<not> isl (block t)) tasks of [] \<Rightarrow> Inr () | t # _ \<Rightarrow> block t)"
  by (induction tasks arbitrary: attempted) (auto split: sum.splits)

lemma perform_performs:
  "performs refused eff \<Longrightarrow> perform refused fs eff = Inr (apply_effect fs eff)"
  by (cases eff) (auto simp: performs_def split: option.splits)

lemma perform_Inr: "perform refused fs eff = Inr fs' \<Longrightarrow> fs' = apply_effect fs eff \<and> performs refused eff"
  by (cases eff) (auto simp: performs_def split: option.splits)

lemma perform_Inl: "perform refused fs eff = Inl e \<Longrightarrow> \<not> performs refused eff"
  by (cases eff) (auto simp: performs_def split: option.splits)

lemma run_effects_progress:
  "\<exists>k \<le> length effs. snd (run_effects refused fs effs) = foldl apply_effect fs (take k effs)"
proof (induction effs arbitrary: fs)
  case Nil
  then show ?case by simp
next
  case (Cons eff effs)
  show ?case
  proof (cases "perform refused fs eff")
    case (Inl e)
    then have "snd (run_effects refused fs (eff # effs)) = foldl apply_effect fs (take 0 (eff # effs))"
      by simp
    then show ?thesis by blast
  next
    case (Inr fs')
    then have fs': "fs' = apply_effect fs eff" by (simp add: perform_Inr)
    from Cons.IH [of fs'] obtain k where k: "k \<le> length effs"
      "snd (run_effects refused fs' effs) = foldl apply_effect fs' (take k effs)" by blast
    then have "snd (run_effects refused fs (eff # effs)) =
               foldl apply_effect fs (take (Suc k) (eff # effs))"
      using Inr fs' by simp
    moreover have "Suc k \<le> length (eff # effs)" using k by simp
    ultimately show ?thesis by blast
  qed
qed

lemma run_effects_result:
  "(fst (run_effects refused fs effs) = Inr ()) = list_all (performs refused) effs"
proof (induction effs arbitrary: fs)
  case Nil
  then show ?case by simp
next
  case (Cons eff effs)
  show ?case
  proof (cases "perform refused fs eff")
    case (Inl e)
    then show ?thesis using perform_Inl [OF Inl] by simp
  next
    case (Inr fs')
    then show ?thesis using perform_Inr [OF Inr] Cons.IH [of fs'] by simp
  qed
qed

lemma run_effects_done:
  "list_all (performs refused) effs \<Longrightarrow>
   run_effects refused fs effs = (Inr (), foldl apply_effect fs effs)"
proof (induction effs arbitrary: fs)
  case Nil
  then show ?case by simp
next
  case (Cons eff effs)
  then have "perform refused fs eff = Inr (apply_effect fs eff)"
    by (simp add: perform_performs)
  then show ?case using Cons by simp
qed

lemma attempts_Cons:
  "attempts block (task # tasks) = (if isl (block task) then [task] else task # attempts block tasks)"
  by (simp add: attempts_def)

lemma calendar_loop_result_ok:
  "(fst (calendar_loop block tasks attempted) = Inr ()) = list_all (\<lambda>t. \<not> isl (block t)) tasks"
  by (induction tasks arbitrary: attempted) (auto split: sum.splits)

lemma gather_files:
  "\<exists>k \<le> length effs.
     fst (snd (gather sched refused block effs tasks fs attempted)) =
       foldl apply_effect fs (take k effs)"
proof (induction sched refused block effs tasks fs attempted rule: gather.induct)
  case (1 sched refused block effs fs attempted)
  from run_effects_progress [of effs refused fs] show ?case
    by (simp add: case_prod_beta)
next
  case (2 sched refused block task tasks fs attempted)
  show ?case by (simp add: case_prod_beta del: calendar_loop.simps)
next
  case (3 sched refused block eff effs task tasks fs attempted)
  show ?case
  proof (cases "sched \<noteq> [] \<and> hd sched = Block_turn")
    case True
    note blk = this
    show ?thesis
    proof (cases "block task")
      case (Inl e)
      then have "fst (snd (gather sched refused block (eff # effs) (task # tasks) fs attempted)) =
                 foldl apply_effect fs (take 0 (eff # effs))"
        using blk by simp
      then show ?thesis by blast
    next
      case (Inr u)
      from "3.IH"(1) [OF blk Inr] obtain k where "k \<le> length (eff # effs)"
        "fst (snd (gather (tl sched) refused block (eff # effs) tasks fs (attempted @ [task]))) =
           foldl apply_effect fs (take k (eff # effs))" by blast
      then show ?thesis using blk Inr by auto
    qed
  next
    case False
    note sv = this
    show ?thesis
    proof (cases "perform refused fs eff")
      case (Inl e)
      then have "fst (snd (gather sched refused block (eff # effs) (task # tasks) fs attempted)) =
                 foldl apply_effect fs (take 0 (eff # effs))"
        using sv by auto
      then show ?thesis by blast
    next
      case (Inr fs')
      then have fs': "fs' = apply_effect fs eff" by (simp add: perform_Inr)
      from "3.IH"(2) [OF sv Inr] obtain k where k: "k \<le> length effs"
        "fst (snd (gather (tl sched) refused block effs (task # tasks) fs' attempted)) =
           foldl apply_effect fs' (take k effs)" by blast
      have "fst (snd (gather sched refused block (eff # effs) (task # tasks) fs attempted)) =
            foldl apply_effect fs (take (Suc k) (eff # effs))"
        using sv Inr k(2) fs' by auto
      moreover have "Suc k \<le> length (eff # effs)" using k(1) by simp
      ultimately show ?thesis by blast
    qed
  qed
qed

lemma gather_attempted:
  "\<exists>j. snd (snd (gather sched refused block effs tasks fs attempted)) =
        attempted @ take j (attempts block tasks)"
proof (induction sched refused block effs tasks fs attempted rule: gather.induct)
  case (1 sched refused block effs fs attempted)
  have "snd (snd (gather sched refused block effs [] fs attempted)) =
        attempted @ take 0 (attempts block [])"
    by (simp add: case_prod_beta)
  then show ?case by blast
next
  case (2 sched refused block task tasks fs attempted)
  have "snd (calendar_loop block (task # tasks) attempted) =
        attempted @ attempts block (task # tasks)"
    unfolding attempts_def by (rule calendar_loop_attempted)
  then have "snd (snd (gather sched refused block [] (task # tasks) fs attempted)) =
        attempted @ take (length (attempts block (task # tasks))) (attempts block (task # tasks))"
    by (simp add: case_prod_beta del: calendar_loop.simps)
  then show ?case by blast
next
  case (3 sched refused block eff effs task tasks fs attempted)
  show ?case
  proof (cases "sched \<noteq> [] \<and> hd sched = Block_turn")
    case True
    note blk = this
    show ?thesis
    proof (cases "block task")
      case (Inl e)
      then have "snd (snd (gather sched refused block (eff # effs) (task # tasks) fs attempted)) =
                 attempted @ take 1 (attempts block (task # tasks))"
        using blk by (simp add: attempts_Cons)
      then show ?thesis by blast
    next
      case (Inr u)
      from "3.IH"(1) [OF blk Inr] obtain j where
        "snd (snd (gather (tl sched) refused block (eff # effs) tasks fs (attempted @ [task]))) =
           (attempted @ [task]) @ take j (attempts block tasks)" by blast
      then have "snd (snd (gather sched refused block (eff # effs) (task # tasks) fs attempted)) =
                 attempted @ take (Suc j) (attempts block (task # tasks))"
        using blk Inr by (simp add: attempts_Cons)
      then show ?thesis by blast
    qed
  next
    case False
    note sv = this
    show ?thesis
    proof (cases "perform refused fs eff")
      case (Inl e)
      then have "snd (snd (gather sched refused block (eff # effs) (task # tasks) fs attempted)) =
                 attempted @ take 0 (attempts block (task # tasks))"
        using sv by auto
      then show ?thesis by blast
    next
      case (Inr fs')
      from "3.IH"(2) [OF sv Inr] obtain j where
        "snd (snd (gather (tl sched) refused block effs (task # tasks) fs' attempted)) =
           attempted @ take j (attempts block (task # tasks))" by blast
      then have "snd (snd (gather sched refused block (eff # effs) (task # tasks) fs attempted)) =
                 attempted @ take j (attempts block (task # tasks))"
        using sv Inr by auto
      then show ?thesis by blast
    qed
  qed
qed

lemma gather_result:
  "(fst (gather sched refused block effs tasks fs attempted) = Inr ()) =
     (list_all (performs refused) effs \<and> list_all (\<lambda>t. \<not> isl (block t)) tasks)"
proof (induction sched refused block effs tasks fs attempted rule: gather.induct)
  case (1 sched refused block effs fs attempted)
  show ?case using run_effects_result [of refused fs effs] by (simp add: case_prod_beta)
next
  case (2 sched refused block task tasks fs attempted)
  show ?case using calendar_loop_result_ok [of block "task # tasks" attempted]
    by (simp add: case_prod_beta del: calendar_loop.simps)
next
  case (3 sched refused block eff effs task tasks fs attempted)
  show ?case
  proof (cases "sched \<noteq> [] \<and> hd sched = Block_turn")
    case True
    note blk = this
    show ?thesis
    proof (cases "block task")
      case (Inl e)
      then show ?thesis using blk by simp
    next
      case (Inr u)
      then show ?thesis using blk "3.IH"(1) [OF blk Inr] by simp
    qed
  next
    case False
    note sv = this
    show ?thesis
    proof (cases "perform refused fs eff")
      case (Inl e)
      then show ?thesis using sv perform_Inl [OF Inl] by auto
    next
      case (Inr fs')
      then show ?thesis using sv "3.IH"(2) [OF sv Inr] perform_Inr [OF Inr] by auto
    qed
  qed
qed

lemma calendar_loop_done:
  "list_all (\<lambda>t. \<not> isl (block t)) tasks \<Longrightarrow>
   calendar_loop block tasks attempted = (Inr (), attempted @ tasks)"
  by (induction tasks arbitrary: attempted) (auto split: sum.splits)

lemma gather_done:
  "list_all (performs refused) effs \<Longrightarrow> list_all (\<lambda>t. \<not> isl (block t)) tasks \<Longrightarrow>
   gather sched refused block effs tasks fs attempted =
     (Inr (), foldl apply_effect fs effs, attempted @ tasks)"
proof (induction sched refused block effs tasks fs attempted rule: gather.induct)
  case (1 sched refused block effs fs attempted)
  then show ?case by (simp add: run_effects_done)
next
  case (2 sched refused block task tasks fs attempted)
  then show ?case using calendar_loop_done [of block "task # tasks" attempted]
    by (simp del: calendar_loop.simps)
next
  case (3 sched refused block eff effs task tasks fs attempted)
  have p: "perform refused fs eff = Inr (apply_effect fs eff)"
    using "3.prems"(1) by (simp add: perform_performs)
  obtain u where b: "block task = Inr u"
    using "3.prems"(2) by (cases "block task") auto
  show ?case
  proof (cases "sched \<noteq> [] \<and> hd sched = Block_turn")
    case True
    then show ?thesis using "3.IH"(1) [OF True b] "3.prems" b by simp
  next
    case False
    then show ?thesis using "3.IH"(2) [OF False p] "3.prems" p by auto
  qed
qed

lemma save_effects_performs:
  "list_all (performs refused) (save_effects lib now path s) = (refused path = None)"
  by (simp add: save_effects_def performs_def)

text \<open>
  Claim C4 as stated: a failure of the notification call for one subtask does not prevent
  the attempts for the remaining subtasks, and does not prevent the save that runs beside
  the loop from completing. With a calendar that refuses the first of the three subtasks of
  scenario 3, the loop raises after the first attempt and the other two subtasks are never
  attempted; and when the save has opened the file by then and not yet written, the gather
  raises, the run ends, and the file is left empty, where a completed save leaves the record.
\<close>

theorem calendar_block_counterexample:
  "mock_async_calendar_block failing_block scenario3_timed =
     (Inl (RuntimeError ''calendar unavailable''), [hd (subtasks scenario3_timed)]) \<and>
   length (subtasks scenario3_timed) = 3 \<and>
   fst (async_main_gather [Save_turn, Block_turn] example_lib example_now Map.empty failing_block
          example_files ''schedule.json'' scenario3_timed) =
     Inl (RuntimeError ''calendar unavailable'') \<and>
   fst (snd (async_main_gather [Save_turn, Block_turn] example_lib example_now Map.empty
               failing_block example_files ''schedule.json'' scenario3_timed)) ''schedule.json'' =
     Some [] \<and>
   snd (save_schedule example_lib example_now Map.empty example_files ''schedule.json''
          scenario3_timed) ''schedule.json'' \<noteq> Some []"
proof -
  have a: "mock_async_calendar_block failing_block scenario3_timed =
     (Inl (RuntimeError ''calendar unavailable''), [hd (subtasks scenario3_timed)]) \<and>
   length (subtasks scenario3_timed) = 3"
    by code_simp
  have b: "async_main_gather [Save_turn, Block_turn] example_lib example_now Map.empty failing_block
          example_files ''schedule.json'' scenario3_timed =
        (Inl (RuntimeError ''calendar unavailable''), example_files(''schedule.json'' \<mapsto> []),
         [hd (subtasks scenario3_timed)])"
    by (simp add: async_main_gather_def save_effects_def scenario3_timed_subtasks
        failing_block_def)
  have c: "snd (save_schedule example_lib example_now Map.empty example_files ''schedule.json''
          scenario3_timed) ''schedule.json'' \<noteq> Some []"
    using example_record_nonempty
    by (simp add: save_schedule_written example_lib_fields example_lib_payload)
  from a b c show ?thesis by simp
qed

text \<open>
  Claim C4, amended: the notification loop attempts the subtasks in the order of the
  schedule and stops at the first one whose call fails: the subtasks attempted are those
  before the first failure and the failing one, the loop raises the exception of that call,
  and when no call fails every subtask is attempted and the loop returns. The gather raises
  the first exception of either coroutine and the run ends there, so under every schedule
  the loop has attempted an initial part of those subtasks and the save is left with the
  operations it had completed: the files unchanged, the file emptied, or the record
  written. The gather returns exactly when the path can be opened and no call fails, and
  then the record is written and every subtask was attempted. When the first call fails
  after the save has opened the file and before it has written, the file is left empty.
\<close>

theorem calendar_block_stops_at_first_failure:
  "snd (mock_async_calendar_block block s) =
     takeWhile (\<lambda>t. \<not> isl (block t)) (subtasks s) @
       take 1 (dropWhile (\<lambda>t. \<not> isl (block t)) (subtasks s)) \<and>
   fst (mock_async_calendar_block block s) =
     (case dropWhile (\<lambda>t. \<not> isl (block t)) (subtasks s) of [] \<Rightarrow> Inr () | t # _ \<Rightarrow> block t) \<and>
   (\<exists>j. snd (snd (async_main_gather sched lib now refused block fs path s)) =
          take j (snd (mock_async_calendar_block block s))) \<and>
   (\<exists>k \<le> 2. fst (snd (async_main_gather sched lib now refused block fs path s)) =
          save_schedule_cancelled k lib now fs path s) \<and>
   (fst (async_main_gather sched lib now refused block fs path s) = Inr ()) =
     (refused path = None \<and> list_all (\<lambda>t. \<not> isl (block t)) (subtasks s)) \<and>
   (refused path = None \<and> list_all (\<lambda>t. \<not> isl (block t)) (subtasks s) \<longrightarrow>
      async_main_gather sched lib now refused block fs path s =
        (Inr (), fs(path \<mapsto> json_dumps lib (save_payload lib now s)), subtasks s)) \<and>
   (refused path = None \<and> subtasks s = task # tasks \<and> block task = Inl e \<longrightarrow>
      async_main_gather (Save_turn # Block_turn # sched) lib now refused block fs path s =
        (Inl e, fs(path \<mapsto> []), [task]))"
proof -
  let ?ok = "\<lambda>t. \<not> isl (block t)"
  have a: "snd (mock_async_calendar_block block s) =
     takeWhile ?ok (subtasks s) @ take 1 (dropWhile ?ok (subtasks s))"
    by (simp add: mock_async_calendar_block_def calendar_loop_attempted)
  have b: "fst (mock_async_calendar_block block s) =
     (case dropWhile ?ok (subtasks s) of [] \<Rightarrow> Inr () | t # _ \<Rightarrow> block t)"
    by (simp add: mock_async_calendar_block_def calendar_loop_result)
  have c: "\<exists>j. snd (snd (async_main_gather sched lib now refused block fs path s)) =
          take j (snd (mock_async_calendar_block block s))"
    using gather_attempted [of sched refused block "save_effects lib now path s" "subtasks s" fs "[]"]
    unfolding a by (simp add: async_main_gather_def attempts_def)
  have d: "\<exists>k \<le> 2. fst (snd (async_main_gather sched lib now refused block fs path s)) =
          save_schedule_cancelled k lib now fs path s"
  proof -
    have len: "length (save_effects lib now path s) = 2"
      by (simp add: save_effects_def)
    from gather_files [of "save_effects lib now path s" sched refused block "subtasks s" fs "[]"]
    obtain k where "k \<le> length (save_effects lib now path s)"
      "fst (snd (gather sched refused block (save_effects lib now path s) (subtasks s) fs [])) =
         foldl apply_effect fs (take k (save_effects lib now path s))" by blast
    then have "k \<le> 2 \<and> fst (snd (async_main_gather sched lib now refused block fs path s)) =
          save_schedule_cancelled k lib now fs path s"
      unfolding len by (simp add: async_main_gather_def save_schedule_cancelled_def)
    then show ?thesis by blast
  qed
  have e: "(fst (async_main_gather sched lib now refused block fs path s) = Inr ()) =
     (refused path = None \<and> list_all ?ok (subtasks s))"
    by (simp add: async_main_gather_def gather_result save_effects_performs)
  have f: "refused path = None \<and> list_all ?ok (subtasks s) \<longrightarrow>
      async_main_gather sched lib now refused block fs path s =
        (Inr (), fs(path \<mapsto> json_dumps lib (save_payload lib now s)), subtasks s)"
  proof
    assume h: "refused path = None \<and> list_all ?ok (subtasks s)"
    then have "gather sched refused block (save_effects lib now path s) (subtasks s) fs [] =
       (Inr (), foldl apply_effect fs (save_effects lib now path s), [] @ subtasks s)"
      by (intro gather_done) (simp_all add: save_effects_performs)
    then show "async_main_gather sched lib now refused block fs path s =
        (Inr (), fs(path \<mapsto> json_dumps lib (save_payload lib now s)), subtasks s)"
      by (simp add: async_main_gather_def) (simp add: save_effects_def)
  qed
  have g: "refused path = None \<and> subtasks s = task # tasks \<and> block task = Inl e \<longrightarrow>
      async_main_gather (Save_turn # Block_turn # sched) lib now refused block fs path s =
        (Inl e, fs(path \<mapsto> []), [task])"
    by (simp add: async_main_gather_def save_effects_def)
  from a b c d e f g show ?thesis by blast
qed

theorem calendar_block_stops_at_first_failure_witness:
  "fst (async_main_gather [Block_turn, Save_turn] example_lib example_now Map.empty (\<lambda>t. Inr ())
          example_files ''schedule.json'' scenario3_timed) = Inr () \<and>
   fst (snd (async_main_gather [Block_turn, Save_turn] example_lib example_now Map.empty
               (\<lambda>t. Inr ()) example_files ''schedule.json'' scenario3_timed)) ''schedule.json'' =
     Some (render_json example_record) \<and>
   snd (snd (async_main_gather [Block_turn, Save_turn] example_lib example_now Map.empty
               (\<lambda>t. Inr ()) example_files ''schedule.json'' scenario3_timed)) =
     subtasks scenario3_timed \<and>
   length (subtasks scenario3_timed) = 3"
proof -
  have l: "length (subtasks scenario3_timed) = 3"
    by code_simp
  have "async_main_gather [Block_turn, Save_turn] example_lib example_now Map.empty (\<lambda>t. Inr ())
          example_files ''schedule.json'' scenario3_timed =
        (Inr (), example_files(''schedule.json'' \<mapsto>
            json_dumps example_lib (save_payload example_lib example_now scenario3_timed)),
         subtasks scenario3_timed)"
    using calendar_block_stops_at_first_failure
          [of "\<lambda>t. Inr ()" scenario3_timed "[Block_turn, Save_turn]" example_lib example_now
              Map.empty example_files "''schedule.json''"]
    by (simp add: list_all_iff)
  then show ?thesis
    using l by (simp add: example_lib_fields example_lib_payload)
qed

end
